theory Spec2Isabelle
  imports Complex_Main
begin

section \<open>JavaScript data used by the form hook\<close>

subsection \<open>Values\<close>

text \<open>
  \<^verbatim>\<open>Values = Record<string, unknown>\<close>: a field may hold any JavaScript value. The hook
  never computes with a field value; it stores it, hands it to the validation rules and, in
  \<^verbatim>\<open>change\<close>, takes its \<^verbatim>\<open>typeof\<close>. The representation of numbers is therefore left
  open (\<open>'n\<close>); objects, symbols and functions are references.
\<close>

datatype 'n jsvalue =
    JUndefined
  | JNull
  | JBoolean bool
  | JNumber 'n
  | JBigInt int
  | JString string
  | JSymbol nat
  | JFunction nat
  | JObject nat

fun typeof :: "'n jsvalue \<Rightarrow> string" where
  "typeof JUndefined = ''undefined''"
| "typeof JNull = ''object''"
| "typeof (JBoolean b) = ''boolean''"
| "typeof (JNumber n) = ''number''"
| "typeof (JBigInt i) = ''bigint''"
| "typeof (JString s) = ''string''"
| "typeof (JSymbol r) = ''symbol''"
| "typeof (JFunction r) = ''function''"
| "typeof (JObject r) = ''object''"

subsection \<open>Plain objects\<close>

text \<open>
  A plain object is the list of its own properties in property order, each name once.
  \<open>get_prop\<close> is the read \<^verbatim>\<open>o[k]\<close> of an own property, before \<^verbatim>\<open>undefined\<close> is
  substituted for a missing one. \<open>assign\<close> defines the own property \<open>k\<close>: an existing
  property keeps its place, a new one goes to the end. It is the last step of the copy
  \<^verbatim>\<open>{...o, [k]: v}\<close>, which defines own properties whatever the name, \<^verbatim>\<open>__proto__\<close>
  included, and it is the write \<^verbatim>\<open>o[k] = v\<close> for every name but \<^verbatim>\<open>__proto__\<close> (see
  \<open>set_error\<close> below). \<open>Object_keys\<close> is \<^verbatim>\<open>Object.keys\<close>. On reads, properties
  inherited from \<^verbatim>\<open>Object.prototype\<close> are not represented: a name that is not an own
  property reads as missing.
\<close>

type_synonym 'v obj = "(string \<times> 'v) list"

definition get_prop :: "'v obj \<Rightarrow> string \<Rightarrow> 'v option" where
  "get_prop ob k = map_of ob k"

fun assign :: "'v obj \<Rightarrow> string \<Rightarrow> 'v \<Rightarrow> 'v obj" where
  "assign [] k v = [(k, v)]"
| "assign (p # ps) k v = (if fst p = k then (k, v) # ps else p # assign ps k v)"

definition Object_keys :: "'v obj \<Rightarrow> string list" where
  "Object_keys ob = map fst ob"

text \<open>\<^verbatim>\<open>values[key]\<close>: a missing property reads as \<^verbatim>\<open>undefined\<close>.\<close>

definition read_value :: "'n jsvalue obj \<Rightarrow> string \<Rightarrow> 'n jsvalue" where
  "read_value vs k = (case get_prop vs k of None \<Rightarrow> JUndefined | Some v \<Rightarrow> v)"

subsection \<open>Numbers of the validation result\<close>

text \<open>
  The counters of a validation result are small integers and are modelled as \<open>int\<close>.
  \<^verbatim>\<open>progress\<close> is the result of a double-precision division and multiplication followed by
  \<^verbatim>\<open>toFixed(2)\<close> and unary plus. A finite double is represented by the rational it denotes;
  \<open>fl\<close> rounds a rational to the nearest double, ties to even (53-bit significand; the
  exponent range is not modelled, every value met here lies between 0 and 100).
\<close>

datatype jsnumber = NaN | Infinity | NegInfinity | Num rat

function bitlen :: "int \<Rightarrow> int" where
  "bitlen n = (if n \<le> 0 then 0 else 1 + bitlen (n div 2))"
  by pat_completeness auto
termination
  by (relation "measure nat") auto

declare bitlen.simps [simp del]

definition round_even :: "rat \<Rightarrow> int" where
  "round_even x =
     (let f = \<lfloor>x\<rfloor>; d = x - of_int f
      in if d < 1 / 2 then f
         else if 1 / 2 < d then f + 1
         else if even f then f else f + 1)"

text \<open>\<open>binade x\<close> is the exponent \<open>e\<close> with \<open>2 ^ e \<le> x < 2 ^ (e + 1)\<close>, for \<open>0 < x\<close>.\<close>

definition binade :: "rat \<Rightarrow> int" where
  "binade x =
     (let (p, q) = quotient_of x;
          d = bitlen p - bitlen q
      in if 2 powi d \<le> x then d else d - 1)"

definition fl :: "rat \<Rightarrow> rat" where
  "fl x =
     (if x = 0 then 0
      else let a = \<bar>x\<bar>;
               u = 2 powi (binade a - 52)
           in sgn x * (of_int (round_even (a / u)) * u))"


text \<open>
  \<^verbatim>\<open>a / b\<close> for finite \<open>a\<close> and \<open>b\<close>, and \<^verbatim>\<open>x * b\<close> for finite \<open>b\<close>. The sign of a zero
  is not represented; the operands met in \<^verbatim>\<open>validate\<close> are never negative.
\<close>

definition js_div :: "rat \<Rightarrow> rat \<Rightarrow> jsnumber" where
  "js_div a b =
     (if b \<noteq> 0 then Num (fl (a / b))
      else if a = 0 then NaN
      else if 0 < a then Infinity else NegInfinity)"

fun js_mul :: "jsnumber \<Rightarrow> rat \<Rightarrow> jsnumber" where
  "js_mul NaN b = NaN"
| "js_mul Infinity b = (if b = 0 then NaN else if 0 < b then Infinity else NegInfinity)"
| "js_mul NegInfinity b = (if b = 0 then NaN else if 0 < b then NegInfinity else Infinity)"
| "js_mul (Num a) b = Num (fl (a * b))"

text \<open>
  \<^verbatim>\<open>+x.toFixed(2)\<close>. For \<open>\<bar>x\<bar> < 10 ^ 21\<close>, \<^verbatim>\<open>toFixed\<close> picks the integer \<open>n\<close> with
  \<open>n / 100\<close> closest to \<open>\<bar>x\<bar>\<close>, the larger one of two, and prints the sign and
  \<open>n / 100\<close> with two decimals; unary plus reads the string back as the nearest double.
  From \<open>10 ^ 21\<close> on, and for \<^verbatim>\<open>NaN\<close> and the infinities, the number is printed in full
  and read back unchanged.
\<close>

fun toFixed2_number :: "jsnumber \<Rightarrow> jsnumber" where
  "toFixed2_number (Num x) =
     (if \<bar>x\<bar> < 10 ^ 21 then Num (fl (sgn x * (of_int \<lfloor>\<bar>x\<bar> * 100 + 1 / 2\<rfloor> / 100)))
      else Num x)"
| "toFixed2_number x = x"

section \<open>The validator\<close>

text \<open>
  \<^verbatim>\<open>Fn\<close> is declared with one parameter in \<^verbatim>\<open>defs.ts\<close>; \<^verbatim>\<open>validate\<close> calls a rule as
  \<^verbatim>\<open>fn(value, values)\<close>, which is the type given here. A rule is a pure function to strings.
  \<^verbatim>\<open>Fns\<close> maps a field name to its optional list of rules.
\<close>

type_synonym 'n Values = "'n jsvalue obj"
type_synonym 'n Fn = "'n jsvalue \<Rightarrow> 'n Values \<Rightarrow> string"
type_synonym 'n Fns = "string \<Rightarrow> 'n Fn list option"
type_synonym Errors = "string obj"

record ValidationResult =
  invalid :: bool
  errors :: Errors
  valid :: bool
  validCount :: int
  progress :: jsnumber
  invalidCount :: int

text \<open>
  \<^verbatim>\<open>errors[key] = s\<close> for a string \<open>s\<close> on the object that \<^verbatim>\<open>validate\<close> creates with
  \<^verbatim>\<open>{}\<close>. The name \<^verbatim>\<open>__proto__\<close> is an accessor of \<^verbatim>\<open>Object.prototype\<close>, and its
  setter ignores a string: the assignment stores nothing, and \<^verbatim>\<open>errors["__proto__"]\<close>
  keeps reading as the prototype object, which is not a string. Every other name becomes
  an own property.
\<close>

definition set_error :: "Errors \<Rightarrow> string \<Rightarrow> string \<Rightarrow> Errors" where
  "set_error errs k s = (if k = ''__proto__'' then errs else assign errs k s)"

text \<open>
  \<^verbatim>\<open>fns[key] ?? []\<close>, for \<^verbatim>\<open>fns[key]\<close> of its declared type: a list of rules or
  \<^verbatim>\<open>undefined\<close>.
\<close>

definition safeFns_of :: "'n Fns \<Rightarrow> string \<Rightarrow> 'n Fn list" where
  "safeFns_of fs k = (case fs k of None \<Rightarrow> [] | Some l \<Rightarrow> l)"

text \<open>
  The loop over \<open>j\<close> (lines 29 to 39). The first component is the error at which the loop
  breaks, \<open>None\<close> when it runs to the end of the list. The second component is not computed
  by the program: it counts the calls \<^verbatim>\<open>fn(value, values)\<close> the loop makes.
\<close>

fun rules_loop :: "'n Fn list \<Rightarrow> 'n jsvalue \<Rightarrow> 'n Values \<Rightarrow> string option \<times> nat" where
  "rules_loop [] v vs = (None, 0)"
| "rules_loop (fn # rest) v vs =
     (let error = fn v vs
      in if error \<noteq> '''' then (Some error, 1)
         else (let (r, calls) = rules_loop rest v vs in (r, Suc calls)))"

text \<open>
  The loop over \<open>i\<close> (lines 23 to 40) on the variables \<open>invalid\<close>, \<open>invalidCount\<close> and
  \<open>errors\<close>.
\<close>

fun keys_loop ::
  "string list \<Rightarrow> 'n Values \<Rightarrow> 'n Fns \<Rightarrow> bool \<times> int \<times> Errors \<Rightarrow> bool \<times> int \<times> Errors" where
  "keys_loop [] vs fs acc = acc"
| "keys_loop (k # rest) vs fs (is_invalid, n_invalid, errs) =
     (let safeFns = safeFns_of fs k;
          v = read_value vs k;
          errs0 = set_error errs k ''''
      in case fst (rules_loop safeFns v vs) of
           None \<Rightarrow> keys_loop rest vs fs (is_invalid, n_invalid, errs0)
         | Some error \<Rightarrow>
             keys_loop rest vs fs (True, n_invalid + 1, set_error errs0 k error))"

definition validate :: "string list \<Rightarrow> 'n Values \<Rightarrow> 'n Fns \<Rightarrow> ValidationResult" where
  "validate ks vs fs =
     (let (is_invalid, n_invalid, errs) = keys_loop ks vs fs (False, 0, []);
          vc = int (length ks) - n_invalid
      in \<lparr> invalid = is_invalid,
           errors = errs,
           valid = \<not> is_invalid,
           validCount = vc,
           progress = toFixed2_number (js_mul (js_div (of_int vc) (of_nat (length ks))) 100),
           invalidCount = n_invalid \<rparr>)"

section \<open>Metadata\<close>

record Metadata =
  touched :: bool
  untouched :: bool
  confirmed :: bool
  unconfirmed :: bool

definition createMetadata :: "bool \<Rightarrow> bool \<Rightarrow> Metadata" where
  "createMetadata t c = \<lparr> touched = t, untouched = \<not> t, confirmed = c, unconfirmed = \<not> c \<rparr>"

section \<open>The change stream\<close>

text \<open>
  \<^verbatim>\<open>changed\<close> is an rxjs \<^verbatim>\<open>Subject\<close>, a library outside this repository. What the hook uses
  of it is modelled: a subject holds its subscribers in subscription order; \<^verbatim>\<open>next\<close>
  delivers the event at once to each of them; \<^verbatim>\<open>pipe(filter(p))\<close> lets through the events
  that satisfy \<open>p\<close>. A subscriber is its predicate and the events it has received.
\<close>

record 'n OnEvent =
  key :: string
  "value" :: "'n jsvalue"

record 'n Subscriber =
  filterFn :: "'n OnEvent \<Rightarrow> bool"
  received :: "'n OnEvent list"

definition deliver :: "'n OnEvent \<Rightarrow> 'n Subscriber \<Rightarrow> 'n Subscriber" where
  "deliver ev sub = (if filterFn sub ev then sub\<lparr>received := received sub @ [ev]\<rparr> else sub)"

section \<open>The hook\<close>

text \<open>
  One form instance. \<open>keys\<close>, \<open>initResult\<close> and \<open>initMetadata\<close> are what \<^verbatim>\<open>useMemo\<close>
  keeps from the first render; \<open>result\<close>, \<open>values\<close> and \<open>metadata\<close> are the three refs;
  then the render counter, the subscribers of \<open>changed\<close>, and the messages written with
  \<^verbatim>\<open>console.error\<close>. \<open>initValues\<close> and \<open>fns\<close> are the two parameters of the hook as
  the latest render passed them: they are not memoised, and the handlers \<^verbatim>\<open>set\<close>,
  \<^verbatim>\<open>change\<close>, \<^verbatim>\<open>confirm\<close> and \<^verbatim>\<open>reset\<close> of a render read the parameters of that render.
  Calls are made through the handlers of the latest render.
\<close>

record 'n Form =
  keys :: "string list"
  initValues :: "'n Values"
  fns :: "'n Fns"
  initResult :: ValidationResult
  initMetadata :: Metadata
  result :: ValidationResult
  "values" :: "'n Values"
  metadata :: Metadata
  counter :: int
  changed :: "'n Subscriber list"
  console :: "string list"

definition rerender :: "'n Form \<Rightarrow> 'n Form" where
  "rerender f = f\<lparr>counter := counter f + 1\<rparr>"

definition changed_next :: "'n OnEvent \<Rightarrow> 'n Form \<Rightarrow> 'n Form" where
  "changed_next ev f = f\<lparr>changed := map (deliver ev) (changed f)\<rparr>"

definition console_error :: "string \<Rightarrow> 'n Form \<Rightarrow> 'n Form" where
  "console_error msg f = f\<lparr>console := console f @ [msg]\<rparr>"

text \<open>\<^verbatim>\<open>useForm(initValues, fns = {})\<close>: the state after the first render.\<close>

definition useForm :: "'n Values \<Rightarrow> 'n Fns option \<Rightarrow> 'n Form" where
  "useForm initVals fnsArg =
     (let fs = (case fnsArg of None \<Rightarrow> Map.empty | Some g \<Rightarrow> g);
          ks = Object_keys initVals;
          initRes = validate ks initVals fs;
          initMeta = createMetadata False False
      in \<lparr> keys = ks, initValues = initVals, fns = fs,
           initResult = initRes, initMetadata = initMeta,
           result = initRes, values = initVals, metadata = initMeta,
           counter = 0, changed = [], console = [] \<rparr>)"

text \<open>
  A later render: the component calls \<^verbatim>\<open>useForm(initValues, fns = {})\<close> again, with the
  same or with other arguments. \<^verbatim>\<open>useState\<close>, \<^verbatim>\<open>useMemo\<close> (empty dependency lists) and
  \<^verbatim>\<open>useRef\<close> return what they hold; only the parameters are new.
\<close>

definition useForm_again :: "'n Values \<Rightarrow> 'n Fns option \<Rightarrow> 'n Form \<Rightarrow> 'n Form" where
  "useForm_again initVals fnsArg f =
     f\<lparr>initValues := initVals,
       fns := (case fnsArg of None \<Rightarrow> Map.empty | Some g \<Rightarrow> g)\<rparr>"

definition set_form :: "string \<Rightarrow> 'n jsvalue \<Rightarrow> 'n Form \<Rightarrow> 'n Form" where
  "set_form k v f =
     (let vs = assign (values f) k v;
          f1 = f\<lparr>values := vs\<rparr>;
          f2 = f1\<lparr>result := validate (keys f1) (values f1) (fns f1)\<rparr>;
          f3 = f2\<lparr>metadata := createMetadata True (confirmed (metadata f2))\<rparr>
      in rerender (changed_next \<lparr> key = k, value = v \<rparr> f3))"

text \<open>\<^verbatim>\<open>/localhost/.test(window.location.href)\<close>\<close>

fun regexp_test :: "string \<Rightarrow> string \<Rightarrow> bool" where
  "regexp_test pat [] = (pat = [])"
| "regexp_test pat (c # cs) = (take (length pat) (c # cs) = pat \<or> regexp_test pat cs)"

definition isDebugAvailable :: "string \<Rightarrow> bool" where
  "isDebugAvailable href = regexp_test ''localhost'' href"

text \<open>
  The event of an input element, reduced to what \<^verbatim>\<open>change\<close> reads: \<^verbatim>\<open>e.target.name\<close>
  and \<^verbatim>\<open>e.target.value\<close>, both strings. An input without a name has the name \<^verbatim>\<open>""\<close>.
  The first argument is \<^verbatim>\<open>window.location.href\<close>.
\<close>

record InputChangeEvent =
  target_name :: string
  target_value :: string

definition change :: "string \<Rightarrow> InputChangeEvent \<Rightarrow> 'n Form \<Rightarrow> 'n Form" where
  "change href e f =
     (let v = JString (target_value e);
          k = target_name e
      in if \<not> isDebugAvailable href then set_form k v f
         else if k = '''' then
           console_error ''Lack of name property in input element'' f
         else if k \<notin> set (keys f) then
           console_error ''Unsupported property used as name attribute in input element'' f
         else if typeof (read_value (values f) k) \<noteq> typeof v then
           console_error
             ''Unsupported change detected. You trying to change non string property with string value''
             f
         else set_form k v f)"

definition confirm :: "'n Form \<Rightarrow> 'n Form" where
  "confirm f =
     (let f1 = f\<lparr>result := validate (keys f) (values f) (fns f)\<rparr>;
          f2 = f1\<lparr>metadata := createMetadata (touched (metadata f1)) True\<rparr>
      in rerender f2)"

text \<open>
  \<^verbatim>\<open>FormSubmitEvent\<close> has one method, \<^verbatim>\<open>preventDefault\<close>; its effect on the event is the
  flag \<open>defaultPrevented\<close>.
\<close>

record FormSubmitEvent =
  defaultPrevented :: bool

definition preventDefault :: "FormSubmitEvent \<Rightarrow> FormSubmitEvent" where
  "preventDefault e = e\<lparr>defaultPrevented := True\<rparr>"

definition submit :: "FormSubmitEvent \<Rightarrow> 'n Form \<Rightarrow> FormSubmitEvent \<times> 'n Form" where
  "submit e f = (preventDefault e, confirm f)"

text \<open>
  \<^verbatim>\<open>reset\<close> assigns the memoised \<open>initResult\<close> and \<open>initMetadata\<close>, and for the values
  the parameter \<open>initValues\<close> of the render it belongs to (line 138).
\<close>

definition reset :: "'n Form \<Rightarrow> 'n Form" where
  "reset f =
     (let f1 = f\<lparr>result := initResult f\<rparr>;
          f2 = f1\<lparr>metadata := initMetadata f1\<rparr>;
          f3 = f2\<lparr>values := initValues f2\<rparr>
      in rerender f3)"

text \<open>
  \<^verbatim>\<open>on(key, filterFn)\<close> is the observable \<^verbatim>\<open>changed$.pipe(filter(filterFn))\<close>, given here
  by its predicate; without a second argument the predicate is \<^verbatim>\<open>event.key === key\<close>.
  \<open>subscribe\<close> is the subscription to such an observable.
\<close>

definition on :: "string \<Rightarrow> ('n OnEvent \<Rightarrow> bool) option \<Rightarrow> 'n OnEvent \<Rightarrow> bool" where
  "on k filterFnArg =
     (case filterFnArg of None \<Rightarrow> (\<lambda>event. key event = k) | Some p \<Rightarrow> p)"

definition subscribe :: "('n OnEvent \<Rightarrow> bool) \<Rightarrow> 'n Form \<Rightarrow> 'n Form" where
  "subscribe p f = f\<lparr>changed := changed f @ [\<lparr> filterFn = p, received = [] \<rparr>]\<rparr>"

text \<open>
  What can happen to a form: the calls a client can make, and a render of the component
  with the arguments it passes to the hook; then a sequence of them.
\<close>

datatype 'n call =
    Set string "'n jsvalue"
  | Change string InputChangeEvent
  | Confirm
  | Submit FormSubmitEvent
  | Reset
  | Subscribe "'n OnEvent \<Rightarrow> bool"
  | Render "'n Values" "'n Fns option"

fun perform :: "'n call \<Rightarrow> 'n Form \<Rightarrow> 'n Form" where
  "perform (Set k v) f = set_form k v f"
| "perform (Change href e) f = change href e f"
| "perform Confirm f = confirm f"
| "perform (Submit e) f = snd (submit e f)"
| "perform Reset f = reset f"
| "perform (Subscribe p) f = subscribe p f"
| "perform (Render initVals fnsArg) f = useForm_again initVals fnsArg f"

definition run :: "'n call list \<Rightarrow> 'n Form \<Rightarrow> 'n Form" where
  "run cs f = foldl (\<lambda>g c. perform c g) f cs"

section \<open>Auxiliary definitions\<close>

text \<open>
  The string that one pass of the loop over \<open>i\<close> computes for \<^verbatim>\<open>errors[key]\<close>: the error
  at which the loop over the rules breaks, \<^verbatim>\<open>""\<close> when it does not break.
\<close>

definition field_error :: "'n Fns \<Rightarrow> 'n Values \<Rightarrow> string \<Rightarrow> string" where
  "field_error fs vs k =
     (case fst (rules_loop (safeFns_of fs k) (read_value vs k) vs) of
        None \<Rightarrow> '''' | Some error \<Rightarrow> error)"

text \<open>
  The form of the scenario in section 8 of the specification: fields \<^verbatim>\<open>email\<close> and
  \<^verbatim>\<open>age\<close>, one rule each. Field numbers are integers here. The message of the second rule
  is written with \<^verbatim>\<open>>=\<close>.
\<close>

definition must_contain_at :: "int Fn" where
  "must_contain_at v vs =
     (case v of JString s \<Rightarrow> if CHR ''@'' \<in> set s then '''' else ''must contain @''
      | _ \<Rightarrow> ''must contain @'')"

definition must_be_18 :: "int Fn" where
  "must_be_18 v vs =
     (case v of JNumber n \<Rightarrow> if 18 \<le> n then '''' else ''must be >= 18''
      | _ \<Rightarrow> ''must be >= 18'')"

definition scenario_fns :: "int Fns" where
  "scenario_fns = [''email'' \<mapsto> [must_contain_at], ''age'' \<mapsto> [must_be_18]]"

definition scenario_form :: "int Form" where
  "scenario_form =
     useForm [(''email'', JString ''''), (''age'', JNumber 0)] (Some scenario_fns)"

text \<open>A form with one field and two rules; the second rule rejects every value.\<close>

definition second_rule :: "int Fn" where
  "second_rule v vs = ''second rule''"

definition two_rules :: "int Fns" where
  "two_rules = [''email'' \<mapsto> [must_contain_at, second_rule]]"

definition two_rules_form :: "int Form" where
  "two_rules_form = useForm [(''email'', JString '''')] (Some two_rules)"

text \<open>
  A form with a field named \<^verbatim>\<open>__proto__\<close>, as
  \<^verbatim>\<open>useForm(JSON.parse('{"a": "", "__proto__": ""}'))\<close> or an object literal with the
  computed key \<^verbatim>\<open>["__proto__"]\<close> gives it: without rules, and with a rule on that field
  that rejects every value.
\<close>

definition proto_values :: "int Values" where
  "proto_values = [(''a'', JString ''''), (''__proto__'', JString '''')]"

definition proto_form :: "int Form" where
  "proto_form = useForm proto_values None"

definition proto_rules :: "int Fns" where
  "proto_rules = [''__proto__'' \<mapsto> [second_rule]]"

text \<open>
  A form with one field, first rendered with the value \<^verbatim>\<open>""\<close> and rendered again, after
  a call of \<^verbatim>\<open>set\<close>, with the component passing \<^verbatim>\<open>{email: "other"}\<close> to the hook.
\<close>

definition one_field_form :: "int Form" where
  "one_field_form = useForm [(''email'', JString '''')] (Some scenario_fns)"

definition rendered_again :: "int Form" where
  "rendered_again =
     run [Set ''email'' (JString ''a@b.com''),
          Render [(''email'', JString ''other'')] (Some scenario_fns)]
       one_field_form"

text \<open>
  A form with 160 fields named \<^verbatim>\<open>a\<close>, \<^verbatim>\<open>aa\<close>, \<^verbatim>\<open>aaa\<close> and so on, each holding its own
  name, and one rule for every field that accepts strings of at most 23 characters: 23
  fields are valid.
\<close>

definition wide_keys :: "string list" where
  "wide_keys = map (\<lambda>i. replicate (Suc i) CHR ''a'') [0..<160]"

definition wide_values :: "int Values" where
  "wide_values = map (\<lambda>k. (k, JString k)) wide_keys"

definition at_most_23 :: "int Fn" where
  "at_most_23 v vs =
     (case v of JString s \<Rightarrow> if length s \<le> 23 then '''' else ''too long''
      | _ \<Rightarrow> ''too long'')"

definition wide_fns :: "int Fns" where
  "wide_fns = (\<lambda>k. Some [at_most_23])"

definition wide_form :: "int Form" where
  "wide_form = useForm wide_values (Some wide_fns)"

section \<open>Double arithmetic\<close>

text \<open>The bit length of a positive integer.\<close>

lemma bitlen_bounds:
  "0 < n \<Longrightarrow> 1 \<le> bitlen n \<and> 2 ^ nat (bitlen n - 1) \<le> n \<and> n < 2 ^ nat (bitlen n)"
proof (induction n rule: bitlen.induct)
  case (1 n)
  show ?case
  proof (cases "n div 2 = 0")
    case True
    with "1.prems" have n1: "n = 1" by presburger
    have "bitlen 1 = 1"
      by (simp add: bitlen.simps)
    with n1 show ?thesis by simp
  next
    case False
    with "1.prems" have pos: "0 < n div 2" by presburger
    from "1.IH" "1.prems" pos
    have ih: "1 \<le> bitlen (n div 2)" "2 ^ nat (bitlen (n div 2) - 1) \<le> n div 2"
      "n div 2 < 2 ^ nat (bitlen (n div 2))"
      by simp_all
    have b: "bitlen n = 1 + bitlen (n div 2)"
      using "1.prems" by (subst bitlen.simps) simp
    have e1: "nat (bitlen n - 1) = Suc (nat (bitlen (n div 2) - 1))"
      using ih(1) b by simp
    have e2: "nat (bitlen n) = Suc (nat (bitlen (n div 2)))"
      using ih(1) b by simp
    have "2 * (n div 2) \<le> n" "n < 2 * (n div 2) + 2"
      by presburger+
    with ih(2,3) have "2 * 2 ^ nat (bitlen (n div 2) - 1) \<le> n"
      "n < 2 * 2 ^ nat (bitlen (n div 2))"
      by linarith+
    then have "2 ^ nat (bitlen n - 1) \<le> n" "n < 2 ^ nat (bitlen n)"
      by (simp_all only: e1 e2 power_Suc)
    moreover have "1 \<le> bitlen n"
      using b ih(1) by linarith
    ultimately show ?thesis by blast
  qed
qed

lemma round_even_error: "\<bar>of_int (round_even y) - y\<bar> \<le> 1 / 2"
proof -
  have "of_int \<lfloor>y\<rfloor> \<le> y" "y < of_int \<lfloor>y\<rfloor> + 1"
    by linarith+
  then show ?thesis
    by (auto simp: round_even_def Let_def abs_le_iff)
qed

text \<open>\<open>binade\<close> finds the power of two at or below a positive number.\<close>

lemma binade_bounds:
  assumes "0 < x"
  shows "2 powi (binade x) \<le> x \<and> x < 2 powi (binade x + 1)"
proof -
  obtain p q where pq: "quotient_of x = (p, q)"
    by (cases "quotient_of x")
  then have q: "0 < q" and x: "x = of_int p / of_int q"
    by (simp_all add: quotient_of_denom_pos quotient_of_div)
  from assms q x have p: "0 < p"
    by (simp add: zero_less_divide_iff)
  define bp where "bp = bitlen p"
  define bq where "bq = bitlen q"
  from bitlen_bounds [OF p] have bp: "1 \<le> bp" "2 ^ nat (bp - 1) \<le> p" "p < 2 ^ nat bp"
    by (simp_all add: bp_def)
  from bitlen_bounds [OF q] have bq: "1 \<le> bq" "2 ^ nat (bq - 1) \<le> q" "q < 2 ^ nat bq"
    by (simp_all add: bq_def)
  have rp: "(2::rat) powi (bp - 1) \<le> of_int p" "of_int p < (2::rat) powi bp"
  proof -
    have "(of_int (2 ^ nat (bp - 1)) :: rat) \<le> of_int p"
      using bp(2) by (simp only: of_int_le_iff)
    then show "(2::rat) powi (bp - 1) \<le> of_int p"
      using bp(1) by (simp add: power_int_def)
    have "(of_int p :: rat) < of_int (2 ^ nat bp)"
      using bp(3) by (simp only: of_int_less_iff)
    then show "of_int p < (2::rat) powi bp"
      using bp(1) by (simp add: power_int_def)
  qed
  have rq: "(2::rat) powi (bq - 1) \<le> of_int q" "of_int q < (2::rat) powi bq"
  proof -
    have "(of_int (2 ^ nat (bq - 1)) :: rat) \<le> of_int q"
      using bq(2) by (simp only: of_int_le_iff)
    then show "(2::rat) powi (bq - 1) \<le> of_int q"
      using bq(1) by (simp add: power_int_def)
    have "(of_int q :: rat) < of_int (2 ^ nat bq)"
      using bq(3) by (simp only: of_int_less_iff)
    then show "of_int q < (2::rat) powi bq"
      using bq(1) by (simp add: power_int_def)
  qed
  have qpos: "(0::rat) < of_int q" using q by simp
  have lo: "(2::rat) powi (bp - bq - 1) \<le> x"
  proof -
    have "(2::rat) powi (bp - bq - 1) * of_int q \<le> 2 powi (bp - bq - 1) * 2 powi bq"
      using rq(2) by (simp add: mult_left_mono)
    also have "\<dots> = 2 powi (bp - 1)"
      by (simp add: power_int_add [symmetric])
    also have "\<dots> \<le> of_int p" by (rule rp(1))
    finally show ?thesis
      using qpos by (simp add: x pos_le_divide_eq)
  qed
  have hi: "x < (2::rat) powi (bp - bq + 1)"
  proof -
    have "of_int p < (2::rat) powi bp" by (rule rp(2))
    also have "\<dots> = 2 powi (bp - bq + 1) * 2 powi (bq - 1)"
      by (simp add: power_int_add [symmetric])
    also have "\<dots> \<le> 2 powi (bp - bq + 1) * of_int q"
      using rq(1) by (simp add: mult_left_mono)
    finally show ?thesis
      using qpos by (simp add: x pos_divide_less_eq)
  qed
  have b: "binade x = (if 2 powi (bp - bq) \<le> x then bp - bq else bp - bq - 1)"
    by (simp add: binade_def pq bp_def bq_def Let_def)
  show ?thesis
    using lo hi by (auto simp: b)
qed

text \<open>Rounding to a double changes a number by at most its \<open>2 ^ 53\<close>-th part.\<close>

lemma fl_error: "\<bar>fl x - x\<bar> \<le> \<bar>x\<bar> / 2 ^ 53"
proof (cases "x = 0")
  case True
  then show ?thesis by (simp add: fl_def)
next
  case False
  define a where "a = \<bar>x\<bar>"
  define u :: rat where "u = 2 powi (binade a - 52)"
  define m where "m = round_even (a / u)"
  from False have a: "0 < a" by (simp add: a_def)
  have u: "0 < u" by (simp add: u_def)
  have f: "fl x = sgn x * (of_int m * u)"
    using False by (simp add: fl_def Let_def a_def u_def m_def)
  have "\<bar>of_int m - a / u\<bar> \<le> 1 / 2"
    unfolding m_def by (rule round_even_error)
  then have "\<bar>of_int m - a / u\<bar> * u \<le> 1 / 2 * u"
    using u by (simp add: mult_right_mono)
  moreover have "\<bar>of_int m - a / u\<bar> * u = \<bar>of_int m * u - a\<bar>"
  proof -
    have "\<bar>of_int m * u - a\<bar> = \<bar>(of_int m - a / u) * u\<bar>"
      using u by (simp add: left_diff_distrib)
    also have "\<dots> = \<bar>of_int m - a / u\<bar> * u"
      using u by (simp add: abs_mult)
    finally show ?thesis by simp
  qed
  ultimately have e: "\<bar>of_int m * u - a\<bar> \<le> u / 2" by simp
  have "u * 2 powi 52 = 2 powi (binade a - 52 + 52)"
    unfolding u_def by (rule power_int_add [symmetric]) simp
  then have "u * 2 ^ 52 = 2 powi (binade a)"
    by simp
  moreover have "2 powi (binade a) \<le> a"
    using binade_bounds [OF a] by simp
  ultimately have "u * 2 ^ 52 \<le> a" by simp
  then have "u \<le> a / 2 ^ 52"
    by (simp add: pos_le_divide_eq)
  then have "u / 2 \<le> a / 2 ^ 52 / 2"
    by (simp add: divide_right_mono)
  then have "u / 2 \<le> a / 2 ^ 53"
    by simp
  with e have "\<bar>of_int m * u - a\<bar> \<le> a / 2 ^ 53" by linarith
  moreover have "\<bar>fl x - x\<bar> = \<bar>of_int m * u - a\<bar>"
  proof -
    have "fl x - x = sgn x * (of_int m * u) - sgn x * a"
      using f by (simp add: a_def mult_sgn_abs)
    also have "\<dots> = sgn x * (of_int m * u - a)"
      by (simp add: right_diff_distrib)
    finally have "\<bar>fl x - x\<bar> = \<bar>sgn x\<bar> * \<bar>of_int m * u - a\<bar>"
      by (simp add: abs_mult)
    with False show ?thesis by (simp add: abs_sgn_eq)
  qed
  ultimately show ?thesis by (simp add: a_def)
qed

lemma fl_nonneg: "0 \<le> x \<Longrightarrow> 0 \<le> fl x"
proof -
  assume x: "0 \<le> x"
  have "x / 2 ^ 53 \<le> x"
    using x by (simp add: divide_le_eq)
  moreover have "\<bar>fl x - x\<bar> \<le> x / 2 ^ 53"
    using fl_error [of x] x by simp
  ultimately show ?thesis by linarith
qed

text \<open>
  The expression of line 49 for \<open>0 \<le> v \<le> t\<close> and \<open>0 < t\<close>: the result is a number within
  \<open>1 / 2 ^ 46\<close> of a hundredth \<open>n / 100\<close>, and that hundredth is within
  \<open>1 / 200 + 1 / 2 ^ 45\<close> of \<open>100 * v / t\<close>.
\<close>

lemma progress_bounds:
  assumes v: "0 \<le> v" "v \<le> t" and t: "0 < t"
  shows "\<exists>p n. toFixed2_number (js_mul (js_div v t) 100) = Num p \<and>
           0 \<le> n \<and> n \<le> 10000 \<and>
           \<bar>p - of_int n / 100\<bar> \<le> 1 / 2 ^ 46 \<and>
           \<bar>of_int n / 100 - 100 * v / t\<bar> \<le> 1 / 200 + 1 / 2 ^ 45"
proof -
  define e :: rat where "e = 1 / 2 ^ 53"
  define r where "r = v / t"
  define q where "q = fl r"
  define y where "y = fl (q * 100)"
  define n where "n = \<lfloor>y * 100 + 1 / 2\<rfloor>"
  define p where "p = fl (of_int n / 100)"
  have e: "0 < e" "e \<le> 1 / 1000000" "e * 128 = 1 / 2 ^ 46" "e * 256 = 1 / 2 ^ 45"
    by (simp_all add: e_def)
  have err: "\<bar>fl x - x\<bar> \<le> \<bar>x\<bar> * e" for x
    using fl_error [of x] by (simp add: e_def)
  have r: "0 \<le> r" "r \<le> 1"
    using v t by (simp_all add: r_def)
  have q0: "0 \<le> q"
    unfolding q_def using r(1) by (rule fl_nonneg)
  have "r * e \<le> 1 * e"
    using r(2) e(1) by (intro mult_right_mono) simp_all
  with err [of r] r(1) have qr: "\<bar>q - r\<bar> \<le> e"
    by (simp add: q_def)
  with r(2) have q1: "q \<le> 1 + e"
    by linarith
  have y0: "0 \<le> y"
    unfolding y_def using q0 by (intro fl_nonneg) simp
  have "q * e \<le> (1 + e) * e"
    using q1 e(1) by (intro mult_right_mono) simp_all
  also have "\<dots> = e + e * e"
    by (simp add: distrib_right)
  also have "e * e \<le> (1 / 1000000) * e"
    using e(1,2) by (intro mult_right_mono) simp_all
  finally have qe: "q * e \<le> e + e / 1000000"
    by simp
  have "\<bar>y - q * 100\<bar> \<le> q * 100 * e"
    using err [of "q * 100"] q0 by (simp add: y_def)
  with qe have yq: "\<bar>y - q * 100\<bar> \<le> 101 * e"
    using e(1) by linarith
  have yr: "\<bar>y - 100 * r\<bar> \<le> 201 * e"
    using yq qr by linarith
  have y1: "y \<le> 100 + 201 * e"
    using yr r(2) by linarith
  have n1: "of_int n \<le> y * 100 + 1 / 2" and n2: "y * 100 + 1 / 2 < of_int n + 1"
    unfolding n_def by linarith+
  have n0: "0 \<le> n"
    using y0 by (simp add: n_def)
  have "(of_int n :: rat) < 10001"
    using n1 y1 e(2) by linarith
  then have nle: "n \<le> 10000"
    by linarith
  have ny: "\<bar>of_int n / 100 - y\<bar> \<le> 1 / 200"
    using n1 n2 by linarith
  have nr: "\<bar>of_int n / 100 - 100 * r\<bar> \<le> 1 / 200 + 1 / 2 ^ 45"
    using ny yr e(1) e(4) by linarith
  have n100: "0 \<le> (of_int n :: rat) / 100" "(of_int n :: rat) / 100 \<le> 100"
    using n0 nle by simp_all
  then have "(of_int n / 100) * e \<le> 100 * e"
    using e(1) by (intro mult_right_mono) simp_all
  moreover have "\<bar>p - of_int n / 100\<bar> \<le> \<bar>of_int n / 100\<bar> * e"
    unfolding p_def by (rule err)
  then have "\<bar>p - of_int n / 100\<bar> \<le> (of_int n / 100) * e"
    by (simp only: abs_of_nonneg [OF n100(1)])
  ultimately have "\<bar>p - of_int n / 100\<bar> \<le> 100 * e"
    by linarith
  then have pn: "\<bar>p - of_int n / 100\<bar> \<le> 1 / 2 ^ 46"
    using e(1) e(3) by linarith
  have sy: "sgn y * (of_int n / 100) = of_int n / 100"
  proof (cases "y = 0")
    case True
    have "\<lfloor>(1::rat) / 2\<rfloor> = 0"
      by (simp add: floor_eq_iff)
    with True show ?thesis by (simp add: n_def)
  next
    case False
    with y0 show ?thesis by (simp add: sgn_if)
  qed
  have "y < 101"
    using y1 e(2) by linarith
  then have small: "\<bar>y\<bar> < 10 ^ 21"
    using y0 by simp
  have "js_div v t = Num q"
    using t by (simp add: js_div_def q_def r_def)
  then have m: "js_mul (js_div v t) 100 = Num y"
    by (simp add: y_def)
  have "toFixed2_number (Num y)
          = Num (fl (sgn y * (of_int \<lfloor>\<bar>y\<bar> * 100 + 1 / 2\<rfloor> / 100)))"
    using small by (simp only: toFixed2_number.simps if_True)
  also have "\<bar>y\<bar> = y"
    using y0 by (rule abs_of_nonneg)
  also have "sgn y * (of_int \<lfloor>y * 100 + 1 / 2\<rfloor> / 100) = of_int n / 100"
    using sy by (simp only: n_def)
  finally have "toFixed2_number (js_mul (js_div v t) 100) = Num p"
    by (simp only: m p_def)
  with n0 nle pn nr show ?thesis
    unfolding r_def by (intro exI [of _ p] exI [of _ n]) simp
qed

section \<open>Objects and the two loops of the validator\<close>

lemma get_prop_assign:
  "get_prop (assign ob k v) k' = (if k' = k then Some v else get_prop ob k')"
  by (induction ob) (auto simp: get_prop_def)

lemma read_value_assign:
  "read_value (assign vs k v) k' = (if k' = k then v else read_value vs k')"
  by (simp add: read_value_def get_prop_assign)

lemma assign_idem: "assign (assign ob k v) k w = assign ob k w"
  by (induction ob) auto

lemma set_error_idem: "set_error (set_error errs k v) k w = set_error errs k w"
  by (simp add: set_error_def assign_idem)

lemma get_prop_set_error:
  "get_prop (set_error errs k v) k' =
     (if k' = k \<and> k \<noteq> ''__proto__'' then Some v else get_prop errs k')"
  by (simp add: set_error_def get_prop_assign)

lemma rules_loop_None_iff:
  "fst (rules_loop rs v vs) = None \<longleftrightarrow> (\<forall>fn\<in>set rs. fn v vs = '''')"
  by (induction rs) (auto simp: Let_def split: prod.splits)

lemma rules_loop_Some_nonempty:
  "fst (rules_loop rs v vs) = Some e \<Longrightarrow> e \<noteq> ''''"
  by (induction rs) (auto simp: Let_def split: prod.splits if_splits)

lemma rules_loop_first_failure:
  "\<forall>g\<in>set pre. g v vs = '''' \<Longrightarrow> fn v vs \<noteq> '''' \<Longrightarrow>
     rules_loop (pre @ fn # post) v vs = (Some (fn v vs), Suc (length pre))"
  by (induction pre) (auto simp: Let_def)

lemma rules_loop_all_pass:
  "\<forall>g\<in>set rs. g v vs = '''' \<Longrightarrow> rules_loop rs v vs = (None, length rs)"
  by (induction rs) (auto simp: Let_def)

lemma field_error_empty_iff:
  "field_error fs vs k = '''' \<longleftrightarrow>
     (\<forall>fn\<in>set (safeFns_of fs k). fn (read_value vs k) vs = '''')"
  using rules_loop_Some_nonempty [of "safeFns_of fs k" "read_value vs k" vs]
    rules_loop_None_iff [of "safeFns_of fs k" "read_value vs k" vs]
  by (auto simp: field_error_def split: option.splits)

text \<open>One pass of the loop over the keys, in terms of \<open>field_error\<close>.\<close>

lemma keys_loop_step:
  "keys_loop (k # rest) vs fs (b, n, errs) =
     keys_loop rest vs fs
       (b \<or> field_error fs vs k \<noteq> '''',
        n + (if field_error fs vs k \<noteq> '''' then 1 else 0),
        set_error errs k (field_error fs vs k))"
proof (cases "fst (rules_loop (safeFns_of fs k) (read_value vs k) vs)")
  case None
  then show ?thesis by (simp add: field_error_def)
next
  case (Some e)
  then have "e \<noteq> ''''" by (rule rules_loop_Some_nonempty)
  with Some show ?thesis by (simp add: field_error_def set_error_idem)
qed

text \<open>
  \<^verbatim>\<open>errors\<close> gets an own entry for every key the loop visits, except \<^verbatim>\<open>__proto__\<close>.
\<close>

lemma keys_loop_errors:
  "get_prop (snd (snd (keys_loop ks vs fs (b, n, errs)))) k =
     (if k \<in> set ks \<and> k \<noteq> ''__proto__'' then Some (field_error fs vs k)
      else get_prop errs k)"
  by (induction ks arbitrary: b n errs)
     (simp_all add: keys_loop_step get_prop_set_error del: keys_loop.simps(2))

lemma keys_loop_count:
  "fst (snd (keys_loop ks vs fs (b, n, errs))) =
     n + int (length (filter (\<lambda>k. field_error fs vs k \<noteq> '''') ks))"
  by (induction ks arbitrary: b n errs)
     (simp_all add: keys_loop_step del: keys_loop.simps(2))

lemma keys_loop_invalid:
  "fst (keys_loop ks vs fs (b, n, errs)) =
     (b \<or> (\<exists>k\<in>set ks. field_error fs vs k \<noteq> ''''))"
  by (induction ks arbitrary: b n errs)
     (auto simp add: keys_loop_step simp del: keys_loop.simps(2))

subsection \<open>The fields of the validation result\<close>

lemma errors_validate:
  "get_prop (errors (validate ks vs fs)) k =
     (if k \<in> set ks \<and> k \<noteq> ''__proto__'' then Some (field_error fs vs k) else None)"
  using keys_loop_errors [of ks vs fs False 0 "[]" k]
  by (simp add: validate_def Let_def case_prod_beta get_prop_def)

lemma invalidCount_validate:
  "invalidCount (validate ks vs fs) =
     int (length (filter (\<lambda>k. field_error fs vs k \<noteq> '''') ks))"
  using keys_loop_count [of ks vs fs False 0 "[]"]
  by (simp add: validate_def Let_def case_prod_beta)

lemma invalid_validate:
  "invalid (validate ks vs fs) = (\<exists>k\<in>set ks. field_error fs vs k \<noteq> '''')"
  using keys_loop_invalid [of ks vs fs False 0 "[]"]
  by (simp add: validate_def Let_def case_prod_beta)

lemma valid_validate: "valid (validate ks vs fs) = (\<not> invalid (validate ks vs fs))"
  by (simp add: validate_def Let_def case_prod_beta)

lemma validCount_validate:
  "validCount (validate ks vs fs) = int (length ks) - invalidCount (validate ks vs fs)"
  by (simp add: validate_def Let_def case_prod_beta)

lemma progress_validate:
  "progress (validate ks vs fs) =
     toFixed2_number
       (js_mul (js_div (of_int (validCount (validate ks vs fs))) (of_nat (length ks))) 100)"
  by (simp add: validate_def Let_def case_prod_beta)

lemma counts_validate:
  "validCount (validate ks vs fs) + invalidCount (validate ks vs fs) = int (length ks)"
  by (simp add: validCount_validate)

lemma validCount_range:
  "0 \<le> validCount (validate ks vs fs) \<and> validCount (validate ks vs fs) \<le> int (length ks)"
proof -
  have "length (filter (\<lambda>k. field_error fs vs k \<noteq> '''') ks) \<le> length ks"
    by (rule length_filter_le)
  then show ?thesis
    by (simp add: validCount_validate invalidCount_validate)
qed

section \<open>The operations of a form\<close>

lemmas call_defs =
  set_form_def change_def confirm_def submit_def reset_def subscribe_def useForm_again_def
  rerender_def changed_next_def console_error_def Let_def

lemma run_Nil: "run [] f = f"
  by (simp add: run_def)

lemma run_Cons: "run (c # cs) f = run cs (perform c f)"
  by (simp add: run_def)

lemma run_snoc: "run (cs @ [c]) f = perform c (run cs f)"
  by (simp add: run_def)

text \<open>Nothing changes what the hook memoised in the first render.\<close>

lemma perform_frame:
  "keys (perform c f) = keys f \<and> initResult (perform c f) = initResult f \<and>
   initMetadata (perform c f) = initMetadata f"
  by (cases c) (simp_all add: call_defs)

lemma run_frame:
  "keys (run cs f) = keys f \<and> initResult (run cs f) = initResult f \<and>
   initMetadata (run cs f) = initMetadata f"
  by (induction cs arbitrary: f) (simp_all add: run_Nil run_Cons perform_frame)

text \<open>Only a render changes the parameters.\<close>

lemma perform_parameters:
  "(\<forall>initVals fnsArg. c \<noteq> Render initVals fnsArg) \<Longrightarrow>
     initValues (perform c f) = initValues f \<and> fns (perform c f) = fns f"
  by (cases c) (simp_all add: call_defs)

lemma run_parameters:
  "(\<forall>c\<in>set cs. \<forall>initVals fnsArg. c \<noteq> Render initVals fnsArg) \<Longrightarrow>
     initValues (run cs f) = initValues f \<and> fns (run cs f) = fns f"
  by (induction cs arbitrary: f) (simp_all add: run_Nil run_Cons perform_parameters)

lemma frame_set_form:
  "keys (set_form k v f) = keys f \<and> fns (set_form k v f) = fns f"
  by (simp add: call_defs)

lemma values_set_form: "values (set_form k v f) = assign (values f) k v"
  by (simp add: call_defs)

lemma result_set_form:
  "result (set_form k v f) = validate (keys f) (assign (values f) k v) (fns f)"
  by (simp add: call_defs)

lemma metadata_set_form:
  "metadata (set_form k v f) = createMetadata True (confirmed (metadata f))"
  by (simp add: call_defs)

lemma changed_set_form:
  "changed (set_form k v f) = map (deliver \<lparr> key = k, value = v \<rparr>) (changed f)"
  by (simp add: call_defs)

lemma result_confirm: "result (confirm f) = validate (keys f) (values f) (fns f)"
  by (simp add: call_defs)

text \<open>
  \<^verbatim>\<open>change\<close> either is the call of \<^verbatim>\<open>set\<close> or writes one message and leaves the rest of
  the form alone.
\<close>

lemma change_cases:
  "change href e f = set_form (target_name e) (JString (target_value e)) f \<or>
   (\<exists>msg. change href e f = console_error msg f)"
  by (auto simp: change_def Let_def)

subsection \<open>The counters along a sequence of calls\<close>

lemma perform_counts:
  assumes "validCount (initResult f) + invalidCount (initResult f) = int (length (keys f))"
    and "validCount (result f) + invalidCount (result f) = int (length (keys f))"
  shows "validCount (result (perform c f)) + invalidCount (result (perform c f))
           = int (length (keys f))"
proof (cases c)
  case (Set k v)
  then show ?thesis by (simp add: result_set_form counts_validate)
next
  case (Change href e)
  from change_cases [of href e f] show ?thesis
  proof
    assume "change href e f = set_form (target_name e) (JString (target_value e)) f"
    with Change show ?thesis by (simp add: result_set_form counts_validate)
  next
    assume "\<exists>msg. change href e f = console_error msg f"
    then have "result (change href e f) = result f"
      by (auto simp: console_error_def)
    with Change assms(2) show ?thesis by simp
  qed
next
  case Confirm
  then show ?thesis by (simp add: result_confirm counts_validate)
next
  case (Submit e)
  then show ?thesis by (simp add: submit_def result_confirm counts_validate)
next
  case Reset
  with assms(1) show ?thesis by (simp add: call_defs)
next
  case (Subscribe p)
  with assms(2) show ?thesis by (simp add: call_defs)
next
  case (Render initVals fnsArg)
  with assms(2) show ?thesis by (simp add: call_defs)
qed

lemma run_counts:
  assumes "validCount (initResult f) + invalidCount (initResult f) = int (length (keys f))"
    and "validCount (result f) + invalidCount (result f) = int (length (keys f))"
  shows "validCount (result (run cs f)) + invalidCount (result (run cs f))
           = int (length (keys f))"
proof (induction cs rule: rev_induct)
  case Nil
  from assms(2) show ?case by (simp add: run_Nil)
next
  case (snoc c cs)
  have "validCount (initResult (run cs f)) + invalidCount (initResult (run cs f))
          = int (length (keys (run cs f)))"
    using assms(1) by (simp add: run_frame)
  moreover have "validCount (result (run cs f)) + invalidCount (result (run cs f))
          = int (length (keys (run cs f)))"
    using snoc.IH by (simp add: run_frame)
  ultimately show ?case
    using perform_counts [of "run cs f" c] by (simp add: run_snoc run_frame)
qed

subsection \<open>Subscribers along a sequence of calls\<close>

lemma filterFn_deliver: "filterFn (deliver ev sub) = filterFn sub"
  by (simp add: deliver_def)

lemma received_deliver:
  "received (deliver ev sub) = received sub @ (if filterFn sub ev then [ev] else [])"
  by (simp add: deliver_def)

text \<open>A subscriber keeps its place and its predicate.\<close>

lemma perform_subscriber:
  assumes "i < length (changed f)"
  shows "i < length (changed (perform c f)) \<and>
         filterFn (changed (perform c f) ! i) = filterFn (changed f ! i)"
proof (cases c)
  case (Set k v)
  with assms show ?thesis by (simp add: changed_set_form filterFn_deliver)
next
  case (Change href e)
  from change_cases [of href e f] show ?thesis
  proof
    assume "change href e f = set_form (target_name e) (JString (target_value e)) f"
    with Change assms show ?thesis by (simp add: changed_set_form filterFn_deliver)
  next
    assume "\<exists>msg. change href e f = console_error msg f"
    then have "changed (change href e f) = changed f"
      by (auto simp: console_error_def)
    with Change assms show ?thesis by simp
  qed
next
  case Confirm
  with assms show ?thesis by (simp add: call_defs)
next
  case (Submit e)
  with assms show ?thesis by (simp add: call_defs)
next
  case Reset
  with assms show ?thesis by (simp add: call_defs)
next
  case (Subscribe p)
  with assms show ?thesis by (simp add: subscribe_def nth_append)
next
  case (Render initVals fnsArg)
  with assms show ?thesis by (simp add: call_defs)
qed

lemma run_subscriber:
  assumes "i < length (changed f)"
  shows "i < length (changed (run cs f)) \<and>
         filterFn (changed (run cs f) ! i) = filterFn (changed f ! i)"
proof (induction cs rule: rev_induct)
  case Nil
  from assms show ?case by (simp add: run_Nil)
next
  case (snoc c cs)
  then show ?case
    using perform_subscriber [of i "run cs f" c] by (simp add: run_snoc)
qed

lemma received_set_form:
  assumes "i < length (changed f)"
  shows "received (changed (set_form k v f) ! i)
           = received (changed f ! i)
             @ (if filterFn (changed f ! i) \<lparr> key = k, value = v \<rparr>
                then [\<lparr> key = k, value = v \<rparr>] else [])"
  using assms by (simp add: changed_set_form received_deliver)

section \<open>The scenario, evaluated\<close>

lemmas scenario_defs =
  scenario_form_def scenario_fns_def must_contain_at_def must_be_18_def
  useForm_def validate_def Object_keys_def safeFns_of_def read_value_def get_prop_def
  set_error_def createMetadata_def Let_def

lemma progress_0_of_2: "toFixed2_number (js_mul (js_div 0 2) 100) = Num 0"
  by code_simp

lemma progress_1_of_2: "toFixed2_number (js_mul (js_div 1 2) 100) = Num 50"
  by code_simp

lemma progress_2_of_2: "toFixed2_number (js_mul (js_div 2 2) 100) = Num 100"
  by code_simp

lemma progress_0_of_0: "toFixed2_number (js_mul (js_div 0 0) 100) = NaN"
  by (simp add: js_div_def)

lemma scenario_initial:
  "scenario_form =
     \<lparr> keys = [''email'', ''age''],
       initValues = [(''email'', JString ''''), (''age'', JNumber 0)],
       fns = scenario_fns,
       initResult = \<lparr> invalid = True,
         errors = [(''email'', ''must contain @''), (''age'', ''must be >= 18'')],
         valid = False, validCount = 0, progress = Num 0, invalidCount = 2 \<rparr>,
       initMetadata =
         \<lparr> touched = False, untouched = True, confirmed = False, unconfirmed = True \<rparr>,
       result = \<lparr> invalid = True,
         errors = [(''email'', ''must contain @''), (''age'', ''must be >= 18'')],
         valid = False, validCount = 0, progress = Num 0, invalidCount = 2 \<rparr>,
       values = [(''email'', JString ''''), (''age'', JNumber 0)],
       metadata =
         \<lparr> touched = False, untouched = True, confirmed = False, unconfirmed = True \<rparr>,
       counter = 0, changed = [], console = [] \<rparr>"
  by (simp add: scenario_defs progress_0_of_2)

lemma scenario_set_email:
  "result (set_form ''email'' (JString ''a@b.com'') scenario_form) =
     \<lparr> invalid = True,
       errors = [(''email'', ''''), (''age'', ''must be >= 18'')],
       valid = False, validCount = 1, progress = Num 50, invalidCount = 1 \<rparr>"
  by (simp add: scenario_initial result_set_form)
     (simp add: scenario_defs progress_1_of_2)

lemma scenario_set_age:
  "result (set_form ''age'' (JNumber 20)
             (set_form ''email'' (JString ''a@b.com'') scenario_form)) =
     \<lparr> invalid = False,
       errors = [(''email'', ''''), (''age'', '''')],
       valid = True, validCount = 2, progress = Num 100, invalidCount = 0 \<rparr>"
  by (simp add: result_set_form values_set_form frame_set_form scenario_initial)
     (simp add: scenario_defs progress_2_of_2)

section \<open>The properties of the specification\<close>

subsection \<open>C1: the error of the field that was set\<close>

text \<open>
  For a key of the form other than \<^verbatim>\<open>__proto__\<close> (the parameter of \<^verbatim>\<open>set\<close> is typed
  \<^verbatim>\<open>K extends keyof V\<close>): after \<^verbatim>\<open>set(k, v)\<close> the entry \<^verbatim>\<open>errors[k]\<close> is \<^verbatim>\<open>""\<close> if and
  only if every rule in the rule list of \<open>k\<close> returns \<^verbatim>\<open>""\<close> on \<open>v\<close> and the new value
  mapping. The rules are called in list order and the loop stops at the first rule that
  returns a non-empty string: when the list is \<open>pre @ fn # post\<close>, the rules of \<open>pre\<close> pass
  and \<open>fn\<close> fails, then \<^verbatim>\<open>errors[k]\<close> is the string of \<open>fn\<close> and exactly
  \<open>length pre + 1\<close> rules have been called, so none of \<open>post\<close>.
\<close>

lemma set_form_error_known_key:
  assumes "k \<in> set (keys f)" and "k \<noteq> ''__proto__''"
  shows
    "(get_prop (errors (result (set_form k v f))) k = Some '''' \<longleftrightarrow>
        (\<forall>fn\<in>set (safeFns_of (fns f) k). fn v (values (set_form k v f)) = '''')) \<and>
     (\<forall>pre fn post.
        safeFns_of (fns f) k = pre @ fn # post \<and>
        (\<forall>g\<in>set pre. g v (values (set_form k v f)) = '''') \<and>
        fn v (values (set_form k v f)) \<noteq> '''' \<longrightarrow>
          get_prop (errors (result (set_form k v f))) k
            = Some (fn v (values (set_form k v f))) \<and>
          rules_loop (safeFns_of (fns f) k) v (values (set_form k v f))
            = (Some (fn v (values (set_form k v f))), Suc (length pre)))"
proof -
  let ?vs = "values (set_form k v f)"
  have rv: "read_value ?vs k = v"
    by (simp add: values_set_form read_value_assign)
  have err: "get_prop (errors (result (set_form k v f))) k = Some (field_error (fns f) ?vs k)"
    using assms by (simp add: result_set_form values_set_form errors_validate)
  have iff: "get_prop (errors (result (set_form k v f))) k = Some '''' \<longleftrightarrow>
        (\<forall>fn\<in>set (safeFns_of (fns f) k). fn v ?vs = '''')"
    using field_error_empty_iff [of "fns f" ?vs k] by (simp add: err rv)
  have short: "get_prop (errors (result (set_form k v f))) k = Some (fn v ?vs) \<and>
          rules_loop (safeFns_of (fns f) k) v ?vs = (Some (fn v ?vs), Suc (length pre))"
    if "safeFns_of (fns f) k = pre @ fn # post" "\<forall>g\<in>set pre. g v ?vs = ''''"
      "fn v ?vs \<noteq> ''''"
    for pre fn post
  proof -
    have "rules_loop (pre @ fn # post) v ?vs = (Some (fn v ?vs), Suc (length pre))"
      using that(2,3) by (rule rules_loop_first_failure)
    then show ?thesis
      by (simp add: err field_error_def rv that(1))
  qed
  from iff short show ?thesis by blast
qed

text \<open>
  On the form with the rules \<open>must_contain_at\<close> and \<open>second_rule\<close>, setting \<^verbatim>\<open>email\<close> to
  \<^verbatim>\<open>"x"\<close> records the message of the first rule after one call.
\<close>

lemma set_form_two_rules:
  "get_prop (errors (result (set_form ''email'' (JString ''x'') two_rules_form))) ''email''
     = Some ''must contain @'' \<and>
   rules_loop [must_contain_at, second_rule] (JString ''x'') [(''email'', JString ''x'')]
     = (Some ''must contain @'', 1)"
proof -
  have h: "''email'' \<in> set (keys two_rules_form)"
    by (simp add: two_rules_form_def useForm_def Object_keys_def Let_def)
  have v: "values (set_form ''email'' (JString ''x'') two_rules_form)
             = [(''email'', JString ''x'')]"
    by (simp add: values_set_form two_rules_form_def useForm_def Let_def)
  have s: "safeFns_of (fns two_rules_form) ''email'' = [] @ must_contain_at # [second_rule]"
    by (simp add: two_rules_form_def two_rules_def useForm_def safeFns_of_def Let_def)
  have m: "must_contain_at (JString ''x'') [(''email'', JString ''x'')] = ''must contain @''"
    by (simp add: must_contain_at_def)
  have n: "''email'' \<noteq> ''__proto__''" by simp
  note t = set_form_error_known_key [OF h n, of "JString ''x''", THEN conjunct2, rule_format,
      of "[]" must_contain_at "[second_rule]"]
  from t s show ?thesis
    by (simp add: v m)
qed

text \<open>
  For a key that is not a key of the form, \<^verbatim>\<open>set\<close> adds the value and \<^verbatim>\<open>validate\<close> never
  visits the key: \<^verbatim>\<open>errors\<close> has no entry for it.
\<close>

lemma set_form_foreign_key:
  "k \<notin> set (keys f) \<Longrightarrow> get_prop (errors (result (set_form k v f))) k = None"
  by (simp add: result_set_form errors_validate)

lemma proto_form_initial:
  "keys proto_form = [''a'', ''__proto__''] \<and> fns proto_form = Map.empty \<and>
   values proto_form = proto_values \<and>
   result proto_form =
     \<lparr> invalid = False, errors = [(''a'', '''')], valid = True, validCount = 2,
       progress = Num 100, invalidCount = 0 \<rparr>"
  by (simp add: proto_form_def proto_values_def useForm_def validate_def Object_keys_def
        safeFns_of_def read_value_def get_prop_def set_error_def Let_def progress_2_of_2)

text \<open>
  C1. The claim is that after every \<^verbatim>\<open>set(key, value)\<close> the entry \<^verbatim>\<open>errors[key]\<close> is
  \<^verbatim>\<open>""\<close> if and only if no rule of the field returns a non-empty string. For the field
  \<^verbatim>\<open>__proto__\<close> the program does otherwise. On the form with the fields \<^verbatim>\<open>a\<close> and
  \<^verbatim>\<open>__proto__\<close> and no rules, \<^verbatim>\<open>__proto__\<close> is a key of the form and has an empty rule
  list; after \<^verbatim>\<open>set("__proto__", "x")\<close> the values hold the new value, and \<^verbatim>\<open>errors\<close>
  consists of the entry of \<^verbatim>\<open>a\<close> alone: it has no own entry \<^verbatim>\<open>__proto__\<close>, so that
  \<^verbatim>\<open>errors["__proto__"]\<close> reads as the prototype object and not as \<^verbatim>\<open>""\<close>.
\<close>

theorem set_form_proto_field:
  "''__proto__'' \<in> set (keys proto_form) \<and>
   safeFns_of (fns proto_form) ''__proto__'' = [] \<and>
   values (set_form ''__proto__'' (JString ''x'') proto_form)
     = [(''a'', JString ''''), (''__proto__'', JString ''x'')] \<and>
   errors (result (set_form ''__proto__'' (JString ''x'') proto_form)) = [(''a'', '''')] \<and>
   get_prop (errors (result (set_form ''__proto__'' (JString ''x'') proto_form))) ''__proto__''
     = None"
  by (simp add: proto_form_initial result_set_form values_set_form)
     (simp add: proto_values_def validate_def safeFns_of_def read_value_def get_prop_def
        set_error_def Let_def)

subsection \<open>C2: the guards of \<^verbatim>\<open>change\<close>\<close>

text \<open>
  C2, as amended. When \<^verbatim>\<open>isDebugAvailable()\<close> holds (the address of the page contains
  \<^verbatim>\<open>localhost\<close>), a call \<^verbatim>\<open>change(e)\<close> whose event has an empty field name, a field name
  outside the keys of the form, or a string value while the stored value of the field is
  not a string (the value of the event is always a string) is skipped: values, validation
  result and metadata are unchanged, no subscriber receives an event, nothing is rendered
  again, and exactly one message is written. The call returns; nothing is raised.
\<close>

theorem change_guarded_skip:
  assumes "isDebugAvailable href"
    and "target_name e = '''' \<or> target_name e \<notin> set (keys f) \<or>
         typeof (read_value (values f) (target_name e)) \<noteq> ''string''"
  shows
    "values (change href e f) = values f \<and>
     result (change href e f) = result f \<and>
     metadata (change href e f) = metadata f \<and>
     changed (change href e f) = changed f \<and>
     counter (change href e f) = counter f \<and>
     (\<exists>msg. console (change href e f) = console f @ [msg])"
  using assms by (auto simp: change_def console_error_def Let_def)

text \<open>
  On a page served from \<^verbatim>\<open>localhost\<close>, the string \<^verbatim>\<open>"21"\<close> for the numeric field
  \<^verbatim>\<open>age\<close> is refused.
\<close>

theorem change_guarded_skip_witness:
  "isDebugAvailable ''http://localhost:3000/'' \<and>
   typeof (read_value (values scenario_form) ''age'') \<noteq> ''string'' \<and>
   values (change ''http://localhost:3000/''
             \<lparr> target_name = ''age'', target_value = ''21'' \<rparr> scenario_form)
     = values scenario_form \<and>
   result (change ''http://localhost:3000/''
             \<lparr> target_name = ''age'', target_value = ''21'' \<rparr> scenario_form)
     = result scenario_form \<and>
   metadata (change ''http://localhost:3000/''
             \<lparr> target_name = ''age'', target_value = ''21'' \<rparr> scenario_form)
     = metadata scenario_form \<and>
   changed (change ''http://localhost:3000/''
             \<lparr> target_name = ''age'', target_value = ''21'' \<rparr> scenario_form)
     = changed scenario_form"
proof -
  have d: "isDebugAvailable ''http://localhost:3000/''"
    by (simp add: isDebugAvailable_def)
  have t: "typeof (read_value (values scenario_form) ''age'') \<noteq> ''string''"
    by (simp add: scenario_initial read_value_def get_prop_def)
  have "target_name \<lparr> target_name = ''age'', target_value = ''21'' \<rparr> = '''' \<or>
        target_name \<lparr> target_name = ''age'', target_value = ''21'' \<rparr>
          \<notin> set (keys scenario_form) \<or>
        typeof (read_value (values scenario_form)
                  (target_name \<lparr> target_name = ''age'', target_value = ''21'' \<rparr>))
          \<noteq> ''string''"
    using t by simp
  from change_guarded_skip [OF d this] d t show ?thesis
    by simp
qed

text \<open>
  Without the restriction the claim fails. On a page whose address does not contain
  \<^verbatim>\<open>localhost\<close>, an event named \<^verbatim>\<open>nickname\<close>, which is not a field of the scenario form,
  goes to \<^verbatim>\<open>set\<close>: the values and the metadata change, and no message is written.
\<close>

theorem change_skip_counterexample:
  "''nickname'' \<notin> set (keys scenario_form) \<and>
   values (change ''https://example.com/''
             \<lparr> target_name = ''nickname'', target_value = ''x'' \<rparr> scenario_form)
     \<noteq> values scenario_form \<and>
   metadata (change ''https://example.com/''
             \<lparr> target_name = ''nickname'', target_value = ''x'' \<rparr> scenario_form)
     \<noteq> metadata scenario_form \<and>
   console (change ''https://example.com/''
             \<lparr> target_name = ''nickname'', target_value = ''x'' \<rparr> scenario_form)
     = console scenario_form"
  by (simp add: change_def isDebugAvailable_def values_set_form metadata_set_form Let_def)
     (simp add: scenario_initial createMetadata_def call_defs)

text \<open>Outside the debug posture \<^verbatim>\<open>change\<close> is \<^verbatim>\<open>set\<close>, whatever the event.\<close>

lemma change_without_debug:
  "\<not> isDebugAvailable href \<Longrightarrow>
     change href e f = set_form (target_name e) (JString (target_value e)) f"
  by (simp add: change_def Let_def)

subsection \<open>C3: the two counters add up to the number of fields\<close>

text \<open>
  C3. After construction and after every further call (\<^verbatim>\<open>set\<close>, \<^verbatim>\<open>change\<close>, \<^verbatim>\<open>confirm\<close>,
  \<^verbatim>\<open>submit\<close>, \<^verbatim>\<open>reset\<close>, a subscription, a later render), \<open>validCount + invalidCount\<close>
  of the current validation result is the number of fields of the initial value mapping.
\<close>

theorem counts_add_up:
  "validCount (result (run cs (useForm initVals fnsArg)))
     + invalidCount (result (run cs (useForm initVals fnsArg)))
   = int (length (Object_keys initVals))"
proof -
  let ?f = "useForm initVals fnsArg"
  have k: "keys ?f = Object_keys initVals"
    by (simp add: useForm_def Let_def)
  have r: "result ?f = validate (keys ?f) initVals (fns ?f)"
    and i: "initResult ?f = validate (keys ?f) initVals (fns ?f)"
    by (simp_all add: useForm_def Let_def)
  show ?thesis
    using run_counts [of ?f cs] by (simp add: r i counts_validate k)
qed

subsection \<open>C4: \<^verbatim>\<open>reset\<close> and the state after construction\<close>

text \<open>
  After any sequence of calls and renders, \<^verbatim>\<open>reset()\<close> leaves the validation result and
  the metadata equal to those immediately after construction: both are memoised.
\<close>

lemma reset_result_metadata:
  "result (reset (run cs (useForm initVals fnsArg))) = result (useForm initVals fnsArg) \<and>
   metadata (reset (run cs (useForm initVals fnsArg))) = metadata (useForm initVals fnsArg)"
proof -
  let ?f = "useForm initVals fnsArg"
  have "result (reset (run cs ?f)) = initResult ?f"
    and "metadata (reset (run cs ?f)) = initMetadata ?f"
    by (simp_all add: reset_def rerender_def Let_def run_frame)
  then show ?thesis
    by (simp add: useForm_def Let_def)
qed

text \<open>
  The values after \<^verbatim>\<open>reset()\<close> are the \<open>initValues\<close> parameter of the latest render. They
  are the values after construction as long as no render has passed other arguments.
\<close>

lemma reset_values: "values (reset f) = initValues f"
  by (simp add: reset_def rerender_def Let_def)

lemma reset_values_without_render:
  assumes "\<forall>c\<in>set cs. \<forall>initVals' fnsArg'. c \<noteq> Render initVals' fnsArg'"
  shows "values (reset (run cs (useForm initVals fnsArg))) = values (useForm initVals fnsArg)"
  using run_parameters [OF assms, of "useForm initVals fnsArg"]
  by (simp add: reset_values) (simp add: useForm_def Let_def)

lemma progress_0_of_1: "toFixed2_number (js_mul (js_div 0 1) 100) = Num 0"
  by code_simp

text \<open>
  C4. The claim is that \<^verbatim>\<open>reset()\<close> restores values, validation result and metadata to the
  state immediately after construction. The program restores the result and the metadata,
  but assigns to the values the \<open>initValues\<close> parameter of the render whose \<^verbatim>\<open>reset\<close> is
  called. The form with the one field \<^verbatim>\<open>email\<close> is constructed with the value \<^verbatim>\<open>""\<close>;
  after \<^verbatim>\<open>set("email", "a@b.com")\<close> and a render in which the component passes
  \<^verbatim>\<open>{email: "other"}\<close>, \<^verbatim>\<open>reset()\<close> leaves the values \<^verbatim>\<open>{email: "other"}\<close>, not those
  after construction, together with the result computed at construction from \<^verbatim>\<open>""\<close>.
\<close>

theorem reset_after_other_initValues:
  "values one_field_form = [(''email'', JString '''')] \<and>
   values (reset rendered_again) = [(''email'', JString ''other'')] \<and>
   result (reset rendered_again) = result one_field_form \<and>
   errors (result (reset rendered_again)) = [(''email'', ''must contain @'')]"
  by (simp add: rendered_again_def one_field_form_def run_def call_defs)
     (simp add: scenario_defs progress_0_of_1)

subsection \<open>C5: delivery to a subscriber of \<^verbatim>\<open>on(key)\<close>\<close>

text \<open>
  C5. Subscribe to \<^verbatim>\<open>on(k)\<close> with the default predicate; the new subscriber is the last
  one, at index \<open>length (changed f)\<close>. After any further calls, a call \<^verbatim>\<open>set(k', v)\<close> with
  \<open>k' \<noteq> k\<close> adds nothing to what this subscriber has received, and a call \<^verbatim>\<open>set(k, v)\<close>
  adds exactly the one event \<^verbatim>\<open>{key: k, value: v}\<close>.
\<close>

theorem on_default_delivery:
  "received (changed (set_form k' v (run cs (subscribe (on k None) f))) ! length (changed f))
     = received (changed (run cs (subscribe (on k None) f)) ! length (changed f))
       @ (if k' = k then [\<lparr> key = k', value = v \<rparr>] else [])"
proof -
  let ?f1 = "subscribe (on k None) f"
  let ?i = "length (changed f)"
  have i: "?i < length (changed ?f1)"
    by (simp add: subscribe_def)
  have p: "filterFn (changed ?f1 ! ?i) = (\<lambda>event. key event = k)"
    by (simp add: subscribe_def on_def)
  from i have r: "?i < length (changed (run cs ?f1))"
    and q: "filterFn (changed (run cs ?f1) ! ?i) = filterFn (changed ?f1 ! ?i)"
    using run_subscriber [of ?i ?f1 cs] by simp_all
  show ?thesis
    using received_set_form [OF r, of k' v] by (simp add: q p)
qed

subsection \<open>C6: what \<^verbatim>\<open>set\<close> and \<^verbatim>\<open>confirm\<close> change\<close>

text \<open>
  C6. \<^verbatim>\<open>set(k, v)\<close> stores \<open>v\<close> under \<open>k\<close> and leaves every other property of the values
  as it was; the new result is \<^verbatim>\<open>validate\<close> over all keys on the new values; the new
  metadata has \<open>touched = true\<close> and the former \<open>confirmed\<close>. \<^verbatim>\<open>confirm()\<close> leaves the
  values as they are; the new metadata has \<open>confirmed = true\<close> and the former \<open>touched\<close>.
\<close>

theorem set_form_and_confirm_frame:
  "(\<forall>k'. k' \<noteq> k \<longrightarrow> get_prop (values (set_form k v f)) k' = get_prop (values f) k') \<and>
   get_prop (values (set_form k v f)) k = Some v \<and>
   result (set_form k v f) = validate (keys f) (values (set_form k v f)) (fns f) \<and>
   touched (metadata (set_form k v f)) = True \<and>
   confirmed (metadata (set_form k v f)) = confirmed (metadata f) \<and>
   values (confirm f) = values f \<and>
   result (confirm f) = validate (keys f) (values f) (fns f) \<and>
   confirmed (metadata (confirm f)) = True \<and>
   touched (metadata (confirm f)) = touched (metadata f)"
  by (simp add: values_set_form result_set_form metadata_set_form get_prop_assign
        createMetadata_def confirm_def rerender_def Let_def)

theorem set_form_and_confirm_frame_witness:
  "''age'' \<noteq> ''email'' \<and>
   get_prop (values (set_form ''email'' (JString ''a@b.com'') scenario_form)) ''age''
     = Some (JNumber 0) \<and>
   get_prop (values (set_form ''email'' (JString ''a@b.com'') scenario_form)) ''email''
     = Some (JString ''a@b.com'')"
  using set_form_and_confirm_frame [of "''email''" "JString ''a@b.com''" scenario_form]
  by (simp add: scenario_initial get_prop_def)

subsection \<open>C7: \<^verbatim>\<open>confirm\<close> twice\<close>

text \<open>
  C7. Two calls of \<^verbatim>\<open>confirm()\<close> in succession leave the same validation result as one.
\<close>

theorem confirm_idempotent_result:
  "result (confirm (confirm f)) = result (confirm f)"
  by (simp add: call_defs)

subsection \<open>C8: progress\<close>

text \<open>
  The form with 160 fields of which 23 are valid, evaluated. The division and the
  multiplication are those of doubles: the product is just below 14.375, and
  \<^verbatim>\<open>progress\<close> is the double nearest to 14.37.
\<close>

lemma map_of_own_name:
  "map_of (map (\<lambda>k. (k, f k)) ks) k = (if k \<in> set ks then Some (f k) else None)"
  by (induction ks) auto

lemma keys_wide_form: "keys wide_form = wide_keys"
  by (simp add: wide_form_def useForm_def Let_def Object_keys_def wide_values_def o_def)

lemma length_wide_keys: "length wide_keys = 160"
  by (simp add: wide_keys_def)

lemma field_error_wide:
  "k \<in> set wide_keys \<Longrightarrow>
     field_error wide_fns wide_values k = (if length k \<le> 23 then '''' else ''too long'')"
  by (simp add: field_error_def wide_fns_def safeFns_of_def read_value_def get_prop_def
        wide_values_def map_of_own_name at_most_23_def Let_def)

lemma upt_split_23: "[0..<160] = [0..<23] @ [23..<160]"
  using upt_add_eq_append [of 0 23 137] by simp

lemma wide_invalid_count:
  "length (filter (\<lambda>k. field_error wide_fns wide_values k \<noteq> '''') wide_keys) = 137"
proof -
  have "filter (\<lambda>k. field_error wide_fns wide_values k \<noteq> '''') wide_keys
          = filter (\<lambda>k. 23 < length k) wide_keys"
    by (rule filter_cong) (auto simp: field_error_wide)
  also have "\<dots> = map (\<lambda>i. replicate (Suc i) CHR ''a'') (filter (\<lambda>i. 23 \<le> i) [0..<160])"
    by (simp add: wide_keys_def filter_map o_def less_Suc_eq_le)
  also have "filter (\<lambda>i. 23 \<le> i) [0..<160] = [23..<160]"
    unfolding upt_split_23 by simp
  finally show ?thesis by simp
qed

lemma progress_23_of_160:
  "toFixed2_number (js_mul (js_div 23 160) 100) = Num (8089590830664253 / 562949953421312)"
  by code_simp

lemma wide_form_result:
  "validCount (result wide_form) = 23 \<and>
   progress (result wide_form) = Num (8089590830664253 / 562949953421312)"
proof -
  have r: "result wide_form = validate wide_keys wide_values wide_fns"
    by (simp add: wide_form_def useForm_def Let_def Object_keys_def wide_values_def o_def)
  have v: "validCount (validate wide_keys wide_values wide_fns) = 23"
    by (simp add: validCount_validate invalidCount_validate wide_invalid_count
          length_wide_keys)
  have "progress (validate wide_keys wide_values wide_fns)
          = toFixed2_number (js_mul (js_div 23 160) 100)"
    by (simp add: progress_validate v length_wide_keys)
  with v show ?thesis
    by (simp add: r progress_23_of_160)
qed

lemma progress_no_fields: "progress (validate [] vs fs) = NaN"
  by (simp add: validate_def js_div_def)

text \<open>
  C8, as amended. In every result of \<^verbatim>\<open>validate\<close> over at least one key, \<open>progress\<close> is
  \<open>validCount\<close> divided by the number of keys, times 100, rounded to two decimals up to
  the rounding of double arithmetic: there is an integer \<open>n\<close> between 0 and 10000 such
  that \<open>progress\<close> differs from the hundredth \<open>n / 100\<close> by at most \<open>1 / 2 ^ 46\<close>, and
  \<open>n / 100\<close> differs from the exact percentage \<open>100 * validCount / length keys\<close> by at
  most \<open>1 / 200 + 1 / 2 ^ 45\<close>. In the scenario \<open>progress\<close> is 0 at first, 50 after
  \<^verbatim>\<open>set("email", "a@b.com")\<close> and 100 after \<^verbatim>\<open>set("age", 20)\<close>.
\<close>

theorem progress_rounded:
  assumes "ks \<noteq> []"
  shows
    "(\<exists>p n. progress (validate ks vs fs) = Num p \<and>
        0 \<le> n \<and> n \<le> 10000 \<and>
        \<bar>p - of_int n / 100\<bar> \<le> 1 / 2 ^ 46 \<and>
        \<bar>of_int n / 100
           - 100 * of_int (validCount (validate ks vs fs)) / of_nat (length ks)\<bar>
          \<le> (1 / 200 + 1 / 2 ^ 45 :: rat)) \<and>
     progress (result scenario_form) = Num 0 \<and>
     progress (result (set_form ''email'' (JString ''a@b.com'') scenario_form)) = Num 50 \<and>
     progress (result (set_form ''age'' (JNumber 20)
        (set_form ''email'' (JString ''a@b.com'') scenario_form))) = Num 100"
proof -
  let ?r = "validate ks vs fs"
  have "(0::rat) \<le> of_int (validCount ?r)"
    "(of_int (validCount ?r) :: rat) \<le> of_nat (length ks)"
    "(0::rat) < of_nat (length ks)"
    using validCount_range [of ks vs fs] assms by simp_all
  from progress_bounds [OF this]
  have "\<exists>p n. progress ?r = Num p \<and> 0 \<le> n \<and> n \<le> 10000 \<and>
        \<bar>p - of_int n / 100\<bar> \<le> 1 / 2 ^ 46 \<and>
        \<bar>of_int n / 100 - 100 * of_int (validCount ?r) / of_nat (length ks)\<bar>
          \<le> (1 / 200 + 1 / 2 ^ 45 :: rat)"
    by (simp only: progress_validate [symmetric])
  moreover have "progress (result scenario_form) = Num 0"
    by (simp add: scenario_initial)
  ultimately show ?thesis
    by (simp add: scenario_set_email scenario_set_age)
qed

theorem progress_rounded_witness:
  "[''email'', ''age''] \<noteq> [] \<and>
   (\<exists>p n. progress (validate [''email'', ''age'']
              [(''email'', JString ''a@b.com''), (''age'', JNumber 0)] scenario_fns) = Num p \<and>
      0 \<le> n \<and> n \<le> 10000 \<and>
      \<bar>p - of_int n / 100\<bar> \<le> 1 / 2 ^ 46 \<and>
      \<bar>of_int n / 100
         - 100 * of_int (validCount (validate [''email'', ''age'']
              [(''email'', JString ''a@b.com''), (''age'', JNumber 0)] scenario_fns))
           / of_nat (length [''email'', ''age''])\<bar>
        \<le> (1 / 200 + 1 / 2 ^ 45 :: rat))"
proof -
  have h: "[''email'', ''age''] \<noteq> []" by simp
  from progress_rounded [OF h, THEN conjunct1] h show ?thesis
    by blast
qed

text \<open>
  The claim without the amendment fails. With 23 valid fields of 160 the exact percentage
  is 14.375, which rounds to 14.38; the program gives the double nearest to 14.37. With
  no field at all it gives \<^verbatim>\<open>NaN\<close>.
\<close>

theorem progress_not_exactly_rounded:
  "length (keys wide_form) = 160 \<and>
   validCount (result wide_form) = 23 \<and>
   progress (result wide_form) = Num (8089590830664253 / 562949953421312) \<and>
   (8089590830664253 / 562949953421312 :: rat) < 14371 / 1000 \<and>
   \<lfloor>(23::rat) / 160 * 100 * 100 + 1 / 2\<rfloor> = 1438 \<and>
   progress (result (useForm [] None :: int Form)) = NaN"
proof -
  have "\<lfloor>(23::rat) / 160 * 100 * 100 + 1 / 2\<rfloor> = 1438"
    by (simp add: floor_eq_iff)
  moreover have "progress (result (useForm [] None :: int Form)) = NaN"
    by (simp add: useForm_def Let_def Object_keys_def progress_no_fields)
  ultimately show ?thesis
    by (simp add: keys_wide_form length_wide_keys wide_form_result)
qed

subsection \<open>C9: the metadata after construction\<close>

text \<open>
  C9. Immediately after construction, and again after every \<^verbatim>\<open>reset()\<close>, the metadata is
  \<open>touched = false\<close>, \<open>untouched = true\<close>, \<open>confirmed = false\<close>, \<open>unconfirmed = true\<close>.
\<close>

theorem initial_metadata:
  "metadata (useForm initVals fnsArg)
     = \<lparr> touched = False, untouched = True, confirmed = False, unconfirmed = True \<rparr> \<and>
   metadata (reset (run cs (useForm initVals fnsArg)))
     = \<lparr> touched = False, untouched = True, confirmed = False, unconfirmed = True \<rparr>"
proof -
  let ?f = "useForm initVals fnsArg"
  have "metadata (reset (run cs ?f)) = initMetadata ?f"
    by (simp add: reset_def rerender_def Let_def run_frame)
  then show ?thesis
    by (simp add: useForm_def createMetadata_def Let_def)
qed

subsection \<open>C10: \<open>invalidCount\<close> and \<open>invalid\<close>\<close>

text \<open>
  When \<^verbatim>\<open>__proto__\<close> is not among the keys: \<open>invalidCount\<close> is the number of keys whose
  error string is not \<^verbatim>\<open>""\<close>, each key counted once whatever the number of its failing
  rules (for keys without repetition, as \<^verbatim>\<open>Object.keys\<close> gives them, this is the size of
  the set of such keys); \<open>invalid\<close> holds if and only if some key has a non-empty error
  string, and \<open>valid\<close> is its negation.
\<close>

lemma validate_invalidCount_plain:
  assumes "''__proto__'' \<notin> set ks"
  shows
  "invalidCount (validate ks vs fs)
     = int (length (filter (\<lambda>k. get_prop (errors (validate ks vs fs)) k \<noteq> Some '''') ks)) \<and>
   (invalid (validate ks vs fs) \<longleftrightarrow>
      (\<exists>k\<in>set ks. get_prop (errors (validate ks vs fs)) k \<noteq> Some '''')) \<and>
   valid (validate ks vs fs) = (\<not> invalid (validate ks vs fs)) \<and>
   (distinct ks \<longrightarrow>
      invalidCount (validate ks vs fs)
        = int (card {k \<in> set ks. get_prop (errors (validate ks vs fs)) k \<noteq> Some ''''}))"
proof -
  let ?r = "validate ks vs fs"
  have e: "(get_prop (errors ?r) k \<noteq> Some '''') = (field_error fs vs k \<noteq> '''')"
    if "k \<in> set ks" for k
    using that assms by (auto simp: errors_validate)
  have f: "filter (\<lambda>k. get_prop (errors ?r) k \<noteq> Some '''') ks
             = filter (\<lambda>k. field_error fs vs k \<noteq> '''') ks"
    by (rule filter_cong) (simp_all add: e)
  have c: "invalidCount ?r
             = int (length (filter (\<lambda>k. get_prop (errors ?r) k \<noteq> Some '''') ks))"
    by (simp add: f invalidCount_validate)
  have i: "invalid ?r \<longleftrightarrow> (\<exists>k\<in>set ks. get_prop (errors ?r) k \<noteq> Some '''')"
    by (simp add: invalid_validate e)
  have d: "invalidCount ?r = int (card {k \<in> set ks. get_prop (errors ?r) k \<noteq> Some ''''})"
    if "distinct ks"
  proof -
    have "distinct (filter (\<lambda>k. get_prop (errors ?r) k \<noteq> Some '''') ks)"
      using that by simp
    then have "card (set (filter (\<lambda>k. get_prop (errors ?r) k \<noteq> Some '''') ks))
                 = length (filter (\<lambda>k. get_prop (errors ?r) k \<noteq> Some '''') ks)"
      by (rule distinct_card)
    then show ?thesis by (simp add: c)
  qed
  from c i d show ?thesis by (simp add: valid_validate)
qed

text \<open>Both rules of the field reject the empty string; the field is counted once.\<close>

lemma two_rules_counted_once:
  "invalidCount (validate [''email''] [(''email'', JString '''')] two_rules) = 1"
  by (simp add: validate_def two_rules_def must_contain_at_def safeFns_of_def read_value_def
        get_prop_def set_error_def Let_def)

text \<open>
  C10. The claim is that \<open>invalidCount\<close> is the number of keys whose error string is
  non-empty and that \<open>invalid\<close> holds exactly when there is such a key. With a field
  \<^verbatim>\<open>__proto__\<close> the program does otherwise, because \<^verbatim>\<open>errors\<close> gets no entry for that
  field. On the form with the fields \<^verbatim>\<open>a\<close> and \<^verbatim>\<open>__proto__\<close> and no rules,
  \<open>invalidCount\<close> is 0 and \<open>invalid\<close> is false, while \<^verbatim>\<open>errors\<close> is \<^verbatim>\<open>{a: ""}\<close> and
  \<^verbatim>\<open>errors["__proto__"]\<close> is not \<^verbatim>\<open>""\<close>. With a rule on \<^verbatim>\<open>__proto__\<close> that rejects every
  value, \<open>invalidCount\<close> is 1 and \<open>invalid\<close> is true, while \<^verbatim>\<open>errors\<close> holds no error
  string at all.
\<close>

theorem validate_proto_field:
  "invalidCount (result proto_form) = 0 \<and>
   invalid (result proto_form) = False \<and>
   errors (result proto_form) = [(''a'', '''')] \<and>
   get_prop (errors (result proto_form)) ''__proto__'' = None \<and>
   invalidCount (validate [''__proto__''] [(''__proto__'', JString '''')] proto_rules) = 1 \<and>
   invalid (validate [''__proto__''] [(''__proto__'', JString '''')] proto_rules) = True \<and>
   errors (validate [''__proto__''] [(''__proto__'', JString '''')] proto_rules) = []"
  by (simp add: proto_form_initial get_prop_def)
     (simp add: validate_def proto_rules_def second_rule_def safeFns_of_def read_value_def
        get_prop_def set_error_def Let_def)

end
